theory Spec2Isabelle
  imports Complex_Main "HOL-Library.Word" "HOL-Library.Log_Nat"
begin

section \<open>The highlight extractor of \<^verbatim>\<open>highlight_extractor.py\<close>\<close>

text \<open>
  The development embeds \<^verbatim>\<open>extract_highlight\<close> (\<^verbatim>\<open>src/highlight_extractor.py\<close>, lines 11-102).
  Python integers are modelled by \<^typ>\<open>int\<close>. A Python float is modelled by the rational
  (\<^typ>\<open>rat\<close>) it denotes, and every float multiplication and division of the source by
  the exact result rounded to the nearest \<^verbatim>\<open>float64\<close> (\<open>fl64\<close> below), so that
  \<^verbatim>\<open>int(1160 / 1000 * 25)\<close> is \<open>28\<close> in the model as it is in Python.
  A requested duration that is a Python integer multiplies exactly; the rounding leaves
  such a product unchanged below \<open>2 ^ 53\<close>.
  The frame scores are sums of integer-valued floats (pixel differences and counts), which
  \<^verbatim>\<open>float64\<close> represents exactly below \<open>2 ^ 53\<close>, so they are modelled by \<^typ>\<open>int\<close>.
  What the libraries report about the file (whether it opens, its duration, its frame rate,
  the non-silent intervals, the decoded frames) is the record \<open>video_file\<close>; what the call
  does to its surroundings (warnings shown, the temporary audio file, the clip written) is the
  record \<open>effects\<close>, returned next to the result.
\<close>

subsection \<open>Python and NumPy primitives\<close>

text \<open>\<^verbatim>\<open>int(x)\<close> on a float: truncation towards zero.\<close>

definition py_int :: "rat \<Rightarrow> int" where
  "py_int x = (if 0 \<le> x then \<lfloor>x\<rfloor> else \<lceil>x\<rceil>)"

text \<open>
  Rounding to the nearest \<^verbatim>\<open>float64\<close> (IEEE 754 binary64, ties to even). A non-zero \<open>x\<close>
  with \<open>2 ^ k \<le> \<bar>x\<bar> < 2 ^ (k + 1)\<close> is rounded to a multiple of \<open>2 ^ (k - 52)\<close> (53
  significant bits), and to a multiple of \<open>2 ^ -1074\<close> in the subnormal range. The exponent
  \<open>k\<close> is found from the bit lengths of numerator and denominator. Overflow to infinity
  (magnitudes of \<open>2 ^ 1024\<close> and more) is outside the model: durations, frame rates and
  frame counts of a file stay far below.
\<close>

definition round_half_even :: "rat \<Rightarrow> int" where
  "round_half_even x =
     (let f = \<lfloor>x\<rfloor>; r = x - of_int f
      in if r < 1 / 2 then f else if 1 / 2 < r then f + 1 else if even f then f else f + 1)"

definition binary_exponent :: "rat \<Rightarrow> int" where
  "binary_exponent x =
     (let (p, q) = quotient_of \<bar>x\<bar>; d = bitlen p - bitlen q
      in if 2 powi d \<le> \<bar>x\<bar> then d else d - 1)"

definition ulp_exponent :: "rat \<Rightarrow> int" where
  "ulp_exponent x = max (binary_exponent x - 52) (- 1074)"

definition fl64 :: "rat \<Rightarrow> rat" where
  "fl64 x =
     (if x = 0 then 0
      else let u = 2 powi ulp_exponent x in of_int (round_half_even (x / u)) * u)"

text \<open>
  A slice bound \<^verbatim>\<open>k\<close> on a sequence of length \<^verbatim>\<open>n\<close>: a negative bound counts from the
  end, and every bound is clipped into \<open>[0, n]\<close>.
\<close>

definition slice_bound :: "int \<Rightarrow> int \<Rightarrow> int" where
  "slice_bound n k = (if k < 0 then max 0 (k + n) else min k n)"

text \<open>\<^verbatim>\<open>xs[a:b]\<close>.\<close>

definition py_slice :: "'a list \<Rightarrow> int \<Rightarrow> int \<Rightarrow> 'a list" where
  "py_slice xs a b =
     (let n = int (length xs); lo = slice_bound n a; hi = slice_bound n b
      in take (nat (hi - lo)) (drop (nat lo) xs))"

text \<open>\<^verbatim>\<open>arr[a:b] += 1\<close> on a NumPy array: the slice is a view, the array keeps its length.\<close>

definition add_slice :: "int list \<Rightarrow> int \<Rightarrow> int \<Rightarrow> int list" where
  "add_slice arr a b =
     (let n = int (length arr); lo = slice_bound n a; hi = slice_bound n b
      in map (\<lambda>i. if lo \<le> int i \<and> int i < hi then arr ! i + 1 else arr ! i) [0..<length arr])"

datatype error =
    FileNotFoundError     \<comment> \<open>line 16\<close>
  | CouldNotProcess       \<comment> \<open>line 21, \<^verbatim>\<open>ValueError("Could not process video file")\<close>\<close>
  | NoAudioTrack          \<comment> \<open>line 32, \<^verbatim>\<open>video.audio\<close> is \<^verbatim>\<open>None\<close>: \<^verbatim>\<open>AttributeError\<close>\<close>
  | NoAudioActivity       \<comment> \<open>line 40, \<^verbatim>\<open>ValueError("No significant audio activity ...")\<close>\<close>
  | UnableToOpen          \<comment> \<open>line 50, \<^verbatim>\<open>ValueError("Unable to open video file")\<close>\<close>
  | NoSceneChanges        \<comment> \<open>line 71, \<^verbatim>\<open>ValueError("No significant scene changes ...")\<close>\<close>
  | NegativeDimensions    \<comment> \<open>line 74, \<^verbatim>\<open>np.zeros\<close> of a negative length\<close>
  | ZeroDivisionError     \<comment> \<open>lines 85 and 97, division by \<^verbatim>\<open>fps\<close>\<close>
  | ArgmaxEmpty           \<comment> \<open>line 89, \<^verbatim>\<open>np.argmax\<close> of an empty sequence: \<^verbatim>\<open>ValueError\<close>\<close>
  | ClipWriteFailed       \<comment> \<open>lines 97-98, \<^verbatim>\<open>subclip\<close> or \<^verbatim>\<open>write_videofile\<close> raises\<close>

text \<open>
  \<^verbatim>\<open>np.argmax\<close> of a sequence: the index of the first occurrence of the maximum; it raises
  on an empty sequence. \<open>argmax_from\<close> scans with the best index and value so far.
\<close>

fun argmax_from :: "nat \<Rightarrow> int \<Rightarrow> nat \<Rightarrow> int list \<Rightarrow> nat" where
  "argmax_from best_i best_v i [] = best_i"
| "argmax_from best_i best_v i (x # xs) =
     (if best_v < x then argmax_from i x (Suc i) xs
      else argmax_from best_i best_v (Suc i) xs)"

fun np_argmax :: "int list \<Rightarrow> error + nat" where
  "np_argmax [] = Inl ArgmaxEmpty"
| "np_argmax (x # xs) = Inr (argmax_from 0 x 1 xs)"

subsection \<open>The data of a call\<close>

type_synonym frame = "8 word list"

record video_file =
  is_file :: bool                          \<comment> \<open>\<^verbatim>\<open>os.path.isfile(video_path)\<close>\<close>
  clip_opens :: bool                       \<comment> \<open>\<^verbatim>\<open>VideoFileClip(video_path)\<close> does not raise\<close>
  duration :: rat                          \<comment> \<open>\<^verbatim>\<open>video.duration\<close>, seconds\<close>
  video_fps :: rat                         \<comment> \<open>\<^verbatim>\<open>video.fps\<close>\<close>
  has_audio :: bool                        \<comment> \<open>\<^verbatim>\<open>video.audio\<close> is not \<^verbatim>\<open>None\<close>\<close>
  nonsilent_ranges :: "(int \<times> int) list"   \<comment> \<open>what \<^verbatim>\<open>detect_nonsilent\<close> returns, milliseconds\<close>
  cap_opened :: bool                       \<comment> \<open>\<^verbatim>\<open>cap.isOpened()\<close>\<close>
  gray_frames :: "frame list"              \<comment> \<open>the frames \<^verbatim>\<open>cap.read()\<close> yields, after \<^verbatim>\<open>cvtColor\<close>\<close>
  write_ok :: bool                         \<comment> \<open>\<^verbatim>\<open>subclip\<close> and \<^verbatim>\<open>write_videofile\<close> do not raise\<close>
  tempdir :: string                        \<comment> \<open>\<^verbatim>\<open>tempfile.gettempdir()\<close>\<close>

datatype warning =
    Exceeds rat rat     \<comment> \<open>line 25: requested duration, video duration\<close>
  | Adjusted rat        \<comment> \<open>lines 27 and 86: the adjusted duration\<close>

record effects =
  warnings :: "warning list"               \<comment> \<open>the \<^verbatim>\<open>st.warning\<close> calls, in order\<close>
  temp_audio_exists :: bool                \<comment> \<open>the file at \<^verbatim>\<open>audio_path\<close> exists\<close>
  clip_written :: "(rat \<times> rat) option"     \<comment> \<open>the \<^verbatim>\<open>subclip\<close> bounds written to \<^verbatim>\<open>output_path\<close>\<close>

definition no_effects :: effects where
  "no_effects = \<lparr>warnings = [], temp_audio_exists = False, clip_written = None\<rparr>"

subsection \<open>Frame differences (lines 52-67)\<close>

text \<open>\<^verbatim>\<open>np.sum(cv2.absdiff(gray_frame, prev_frame))\<close> on two frames of \<^verbatim>\<open>uint8\<close> pixels.\<close>

definition absdiff_sum :: "frame \<Rightarrow> frame \<Rightarrow> int" where
  "absdiff_sum gray_frame prev_frame =
     sum_list (map2 (\<lambda>a b. int (unat (if b \<le> a then a - b else b - a))) gray_frame prev_frame)"

text \<open>The \<^verbatim>\<open>while True\<close> loop over \<^verbatim>\<open>cap.read()\<close>, with \<^verbatim>\<open>prev_frame\<close> as its state.\<close>

fun read_frames :: "frame option \<Rightarrow> frame list \<Rightarrow> int list" where
  "read_frames prev_frame [] = []"
| "read_frames prev_frame (gray_frame # rest) =
     (case prev_frame of
        None \<Rightarrow> read_frames (Some gray_frame) rest
      | Some p \<Rightarrow> absdiff_sum gray_frame p # read_frames (Some gray_frame) rest)"

subsection \<open>Interval conversion (line 44)\<close>

text \<open>
  \<^verbatim>\<open>int(ms / 1000 * fps)\<close>: the true division of two integers gives the nearest float of
  the quotient, and the product with \<^verbatim>\<open>fps\<close> is rounded again.
\<close>

definition ms_to_frame :: "int \<Rightarrow> int \<Rightarrow> int" where
  "ms_to_frame ms fps = py_int (fl64 (fl64 (of_int ms / 1000) * of_int fps))"

text \<open>
  The conversion in the words of the specification,
  \<^verbatim>\<open>frame = round(ms / 1000 * fps)\<close>: the exact quotient rounded to the nearest frame.
\<close>

definition spec_ms_to_frame :: "int \<Rightarrow> int \<Rightarrow> int" where
  "spec_ms_to_frame ms fps = round (of_int ms / 1000 * of_int fps :: rat)"

subsection \<open>Combining the scores (lines 74-80)\<close>

text \<open>The loop \<^verbatim>\<open>for i, diff in enumerate(frame_diffs)\<close>, \<open>i\<close> being the running index.\<close>

fun add_diffs :: "nat \<Rightarrow> int list \<Rightarrow> int list \<Rightarrow> int list" where
  "add_diffs i [] frame_scores = frame_scores"
| "add_diffs i (diff # rest) frame_scores =
     add_diffs (Suc i) rest
       (if i < length frame_scores then frame_scores[i := frame_scores ! i + diff]
        else frame_scores)"

definition combine_scores :: "nat \<Rightarrow> (int \<times> int) list \<Rightarrow> int list \<Rightarrow> int list" where
  "combine_scores total_frames nonsilent_ranges_frames frame_diffs =
     add_diffs 0 frame_diffs
       (foldl (\<lambda>frame_scores (start, end). add_slice frame_scores start end)
          (replicate total_frames 0) nonsilent_ranges_frames)"

subsection \<open>Selecting the window (lines 88-92)\<close>

text \<open>\<^verbatim>\<open>np.sum(frame_scores[i:i + highlight_frames])\<close>.\<close>

definition window_sum :: "int list \<Rightarrow> int \<Rightarrow> int \<Rightarrow> int" where
  "window_sum frame_scores i highlight_frames =
     sum_list (py_slice frame_scores i (i + highlight_frames))"

text \<open>The list comprehension over \<^verbatim>\<open>range(len(frame_scores) - highlight_frames)\<close>.\<close>

definition window_sums :: "int list \<Rightarrow> int \<Rightarrow> int list" where
  "window_sums frame_scores highlight_frames =
     map (\<lambda>i. window_sum frame_scores (int i) highlight_frames)
       [0..<nat (int (length frame_scores) - highlight_frames)]"

definition select_start :: "int list \<Rightarrow> int \<Rightarrow> error + nat" where
  "select_start frame_scores highlight_frames =
     np_argmax (window_sums frame_scores highlight_frames)"

subsection \<open>The extraction operation\<close>

text \<open>Lines 24-27: the adjustment to the video's duration, with its two warnings.\<close>

definition adjust_to_video :: "video_file \<Rightarrow> rat \<Rightarrow> effects \<Rightarrow> rat \<times> effects" where
  "adjust_to_video video highlight_duration w =
     (if duration video < highlight_duration
      then (duration video,
            w\<lparr>warnings := warnings w @
                [Exceeds highlight_duration (duration video), Adjusted (duration video)]\<rparr>)
      else (highlight_duration, w))"

text \<open>\<^verbatim>\<open>os.path.join(a, b)\<close> for a relative \<^verbatim>\<open>b\<close> (POSIX).\<close>

definition path_join :: "string \<Rightarrow> string \<Rightarrow> string" where
  "path_join a b = (if a = [] \<or> last a = CHR ''/'' then a @ b else a @ ''/'' @ b)"

definition output_path :: "video_file \<Rightarrow> string" where
  "output_path video = path_join (tempdir video) ''highlight.mp4''"

text \<open>The locals of lines 42-44, 52-67 and 74-80, as functions of what the file holds.\<close>

definition fps_of :: "video_file \<Rightarrow> int" where
  "fps_of video = py_int (video_fps video)"

definition total_frames_of :: "video_file \<Rightarrow> int" where
  "total_frames_of video = py_int (fl64 (duration video * of_int (fps_of video)))"

definition nonsilent_ranges_frames_of :: "video_file \<Rightarrow> (int \<times> int) list" where
  "nonsilent_ranges_frames_of video =
     map (\<lambda>(start, end). (ms_to_frame start (fps_of video), ms_to_frame end (fps_of video)))
       (nonsilent_ranges video)"

text \<open>\<^verbatim>\<open>frame_diffs = frame_diffs[:total_frames]\<close> after the reading loop.\<close>

definition frame_diffs_of :: "video_file \<Rightarrow> int list" where
  "frame_diffs_of video =
     py_slice (read_frames None (gray_frames video)) 0 (total_frames_of video)"

definition frame_scores_of :: "video_file \<Rightarrow> int list" where
  "frame_scores_of video =
     combine_scores (nat (total_frames_of video)) (nonsilent_ranges_frames_of video)
       (frame_diffs_of video)"

text \<open>
  Lines 83-86: the adjustment to the number of scored frames. The division by
  \<^verbatim>\<open>fps\<close> raises when \<^verbatim>\<open>fps\<close> is zero.
\<close>

definition adjust_to_scores ::
  "int \<Rightarrow> rat \<Rightarrow> int list \<Rightarrow> effects \<Rightarrow> error + rat \<times> effects" where
  "adjust_to_scores fps highlight_duration frame_scores w =
     (let highlight_frames = py_int (fl64 (highlight_duration * of_int fps))
      in if int (length frame_scores) < highlight_frames
         then if fps = 0 then Inl ZeroDivisionError
              else Inr (fl64 (of_nat (length frame_scores) / of_int fps),
                        w\<lparr>warnings := warnings w @
                            [Adjusted (fl64 (of_nat (length frame_scores) / of_int fps))]\<rparr>)
         else Inr (highlight_duration, w))"

text \<open>
  Lines 83-102: the second adjustment, the selection, and the writing of the clip inside
  \<^verbatim>\<open>try ... finally\<close>, which removes the temporary audio file whether or not the body
  raises.
\<close>

definition select_and_write ::
  "video_file \<Rightarrow> int \<Rightarrow> rat \<Rightarrow> int list \<Rightarrow> effects \<Rightarrow> (error + string) \<times> effects" where
  "select_and_write video fps highlight_duration frame_scores w =
     (case adjust_to_scores fps highlight_duration frame_scores w of
        Inl e \<Rightarrow> (Inl e, w)
      | Inr (highlight_duration, w) \<Rightarrow>
          let highlight_frames = py_int (fl64 (highlight_duration * of_int fps))
          in case select_start frame_scores highlight_frames of
               Inl e \<Rightarrow> (Inl e, w)
             | Inr start_frame \<Rightarrow>
                 let end_frame = int start_frame + highlight_frames
                 in if fps = 0 then (Inl ZeroDivisionError, w\<lparr>temp_audio_exists := False\<rparr>)
                    else if \<not> write_ok video
                    then (Inl ClipWriteFailed, w\<lparr>temp_audio_exists := False\<rparr>)
                    else (Inr (output_path video),
                          w\<lparr>clip_written :=
                               Some (fl64 (of_nat start_frame / of_int fps),
                                     fl64 (of_int end_frame / of_int fps)),
                            temp_audio_exists := False\<rparr>))"

definition extract_highlight :: "video_file \<Rightarrow> rat \<Rightarrow> (error + string) \<times> effects" where
  "extract_highlight video highlight_duration =
     (if \<not> is_file video then (Inl FileNotFoundError, no_effects)
      else if \<not> clip_opens video then (Inl CouldNotProcess, no_effects)
      else
        let (highlight_duration, w) = adjust_to_video video highlight_duration no_effects;
            w = w\<lparr>temp_audio_exists := True\<rparr>
        in if \<not> has_audio video then (Inl NoAudioTrack, w)
           else if nonsilent_ranges video = []
           then (Inl NoAudioActivity, w\<lparr>temp_audio_exists := False\<rparr>)
           else if \<not> cap_opened video
           then (Inl UnableToOpen, w\<lparr>temp_audio_exists := False\<rparr>)
           else if frame_diffs_of video = []
           then (Inl NoSceneChanges, w\<lparr>temp_audio_exists := False\<rparr>)
           else if total_frames_of video < 0 then (Inl NegativeDimensions, w)
           else select_and_write video (fps_of video) highlight_duration
                  (frame_scores_of video) w)"

text \<open>
  The duration the selection works with: \<^verbatim>\<open>highlight_duration\<close> after both adjustments
  (the value at line 88), for a call that gets there.
\<close>

definition duration_used :: "video_file \<Rightarrow> rat \<Rightarrow> rat" where
  "duration_used video highlight_duration =
     (case adjust_to_scores (fps_of video)
             (fst (adjust_to_video video highlight_duration no_effects))
             (frame_scores_of video) no_effects of
        Inl e \<Rightarrow> fst (adjust_to_video video highlight_duration no_effects)
      | Inr (d, w) \<Rightarrow> d)"

text \<open>
  Every constructor of \<open>error\<close> belongs to one place of the source. The errors raised before
  the scores are combined (before line 74) are these.
\<close>

definition raised_before_scoring :: "error \<Rightarrow> bool" where
  "raised_before_scoring e =
     (e = FileNotFoundError \<or> e = CouldNotProcess \<or> e = NoAudioTrack \<or> e = NoAudioActivity
      \<or> e = UnableToOpen \<or> e = NoSceneChanges)"


text \<open>
  A range \<open>r = (start, end)\<close> covers index \<open>i\<close> of an array of length \<open>n\<close> when \<open>i\<close> lies in
  the slice \<^verbatim>\<open>[start:end]\<close>.
\<close>

definition covers :: "nat \<Rightarrow> nat \<Rightarrow> int \<times> int \<Rightarrow> bool" where
  "covers n i r = (slice_bound (int n) (fst r) \<le> int i \<and> int i < slice_bound (int n) (snd r))"

subsection \<open>The specification's score builder\<close>

text \<open>
  The composite score in the words of the specification: the difference magnitude for
  frame \<open>i\<close> (none for frame 0; \<open>magnitudes\<close> holds those of frames \<open>1, 2, ...\<close>) plus one
  for each range \<open>[start, end)\<close> that covers \<open>i\<close>.
\<close>

definition spec_combine_scores :: "nat \<Rightarrow> (int \<times> int) list \<Rightarrow> int list \<Rightarrow> int list" where
  "spec_combine_scores n ranges magnitudes =
     map (\<lambda>i. (if i = 0 then 0 else magnitudes ! (i - 1))
               + int (length (filter (\<lambda>(start, end). start \<le> int i \<and> int i < end) ranges)))
       [0..<n]"

subsection \<open>Example inputs\<close>

text \<open>
  Three seconds of video at one frame per second: three identical frames, sound during the
  last second only.
\<close>

definition late_sound_video :: video_file where
  "late_sound_video =
     \<lparr>is_file = True, clip_opens = True, duration = 3, video_fps = 1, has_audio = True,
      nonsilent_ranges = [(2000, 3000)], cap_opened = True,
      gray_frames = [[7], [7], [7]], write_ok = True, tempdir = ''/tmp''\<rparr>"

text \<open>The same file without an audio stream.\<close>

definition mute_video :: video_file where
  "mute_video = late_sound_video\<lparr>has_audio := False\<rparr>"

text \<open>A silent recording with moving pictures: no non-silent interval, three differing frames.\<close>

definition silent_video :: video_file where
  "silent_video =
     \<lparr>is_file = True, clip_opens = True, duration = 3, video_fps = 1, has_audio = True,
      nonsilent_ranges = [], cap_opened = True,
      gray_frames = [[1, 2], [3, 1], [0, 9]], write_ok = True, tempdir = ''/tmp''\<rparr>"



text \<open>A file with sound of which a single frame is decoded.\<close>

definition one_frame_video :: video_file where
  "one_frame_video = late_sound_video\<lparr>gray_frames := [[7]]\<rparr>"

section \<open>Properties of the primitives\<close>

subsection \<open>Rounding to \<^verbatim>\<open>float64\<close>\<close>

lemma round_half_even_error: "\<bar>of_int (round_half_even x) - x\<bar> \<le> 1 / 2"
proof -
  have "of_int \<lfloor>x\<rfloor> \<le> x" "x < of_int \<lfloor>x\<rfloor> + 1" by linarith+
  then show ?thesis by (auto simp: round_half_even_def Let_def)
qed

lemma binary_exponent_bounds:
  assumes "x \<noteq> 0"
  shows "2 powi binary_exponent x \<le> \<bar>x\<bar> \<and> \<bar>x\<bar> < 2 powi (binary_exponent x + 1)"
proof -
  obtain p q where pq: "quotient_of \<bar>x\<bar> = (p, q)" by (cases "quotient_of \<bar>x\<bar>")
  then have q: "0 < q" and x: "\<bar>x\<bar> = of_int p / of_int q"
    by (rule quotient_of_denom_pos, rule quotient_of_div)
  from assms have "0 < \<bar>x\<bar>" by simp
  with q x have p: "0 < p" by (simp add: zero_less_divide_iff)
  let ?d = "bitlen p - bitlen q"
  have bp: "1 \<le> bitlen p" and bq: "1 \<le> bitlen q"
    using p q bitlen_eq_zero_iff [of p] bitlen_eq_zero_iff [of q] bitlen_nonneg [of p]
      bitlen_nonneg [of q] by linarith+
  have "(2::int) ^ nat (bitlen p - 1) \<le> p" "p < 2 ^ nat (bitlen p)"
    "(2::int) ^ nat (bitlen q - 1) \<le> q" "q < 2 ^ nat (bitlen q)"
    using bitlen_bounds [OF p] bitlen_bounds [OF q] by simp_all
  then have P: "(2::rat) ^ nat (bitlen p - 1) \<le> of_int p" "(of_int p :: rat) < 2 ^ nat (bitlen p)"
    and Q: "(2::rat) ^ nat (bitlen q - 1) \<le> of_int q" "(of_int q :: rat) < 2 ^ nat (bitlen q)"
    by (metis of_int_le_iff of_int_less_iff of_int_numeral of_int_power)+
  have PI: "(2::rat) powi (bitlen p - 1) \<le> of_int p" "(of_int p :: rat) < 2 powi bitlen p"
    and QI: "(2::rat) powi (bitlen q - 1) \<le> of_int q" "(of_int q :: rat) < 2 powi bitlen q"
    using P Q bp bq by (simp_all add: power_int_nonneg_exp)
  have qpos: "(0::rat) < of_int q" using q by simp
  have lower: "(2::rat) powi (?d - 1) \<le> \<bar>x\<bar>"
  proof -
    have eq: "?d - 1 = (bitlen p - 1) - bitlen q" by simp
    have "(2::rat) powi (?d - 1) = 2 powi (bitlen p - 1) / 2 powi bitlen q"
      by (subst eq, rule power_int_diff) simp
    also have "\<dots> \<le> of_int p / 2 powi bitlen q"
      using PI(1) by (simp add: divide_right_mono)
    also have "\<dots> \<le> of_int p / of_int q"
      using QI(2) p qpos by (simp add: frac_le)
    finally show ?thesis by (simp add: x)
  qed
  have upper: "\<bar>x\<bar> < (2::rat) powi (?d + 1)"
  proof -
    have "of_int p / of_int q < (2::rat) powi bitlen p / of_int q"
      using PI(2) qpos by (simp add: divide_strict_right_mono)
    also have "\<dots> \<le> 2 powi bitlen p / 2 powi (bitlen q - 1)"
      using QI(1) by (simp add: frac_le)
    also have "\<dots> = 2 powi (bitlen p - (bitlen q - 1))"
      by (rule power_int_diff [symmetric]) simp
    also have "bitlen p - (bitlen q - 1) = ?d + 1" by simp
    finally show ?thesis by (simp add: x)
  qed
  show ?thesis
  proof (cases "2 powi ?d \<le> \<bar>x\<bar>")
    case True
    then show ?thesis using upper by (simp add: binary_exponent_def pq)
  next
    case False
    then show ?thesis using lower by (simp add: binary_exponent_def pq)
  qed
qed

lemma fl64_error:
  assumes "2 powi (- 1022) \<le> \<bar>x\<bar>"
  shows "\<bar>fl64 x - x\<bar> \<le> \<bar>x\<bar> / 2 ^ 53"
proof -
  have "(0::rat) < 2 powi (- 1022)" by simp
  with assms have nz: "x \<noteq> 0" by auto
  let ?k = "binary_exponent x"
  from binary_exponent_bounds [OF nz]
  have lo: "2 powi ?k \<le> \<bar>x\<bar>" and hi: "\<bar>x\<bar> < 2 powi (?k + 1)" by simp_all
  from assms hi have "(2::rat) powi (- 1022) < 2 powi (?k + 1)" by simp
  have "- 1022 < ?k + 1"
  proof (rule ccontr)
    assume "\<not> - 1022 < ?k + 1"
    then have "(2::rat) powi (?k + 1) \<le> 2 powi (- 1022)"
      by (intro power_int_increasing) simp_all
    with \<open>(2::rat) powi (- 1022) < 2 powi (?k + 1)\<close> show False by simp
  qed
  then have e: "ulp_exponent x = ?k - 52" by (simp add: ulp_exponent_def)
  let ?u = "(2::rat) powi (?k - 52)"
  have upos: "0 < ?u" by simp
  have u: "?u = 2 powi ?k / 2 ^ 52"
    using power_int_diff [of "2::rat" ?k 52] by simp
  let ?m = "round_half_even (x / ?u)"
  have "fl64 x - x = (of_int ?m - x / ?u) * ?u"
    using nz upos by (simp add: fl64_def e Let_def field_simps)
  then have "\<bar>fl64 x - x\<bar> = \<bar>of_int ?m - x / ?u\<bar> * ?u"
    using upos by (simp add: abs_mult)
  also have "\<dots> \<le> 1 / 2 * ?u"
    using round_half_even_error [of "x / ?u"] upos by (simp add: mult_right_mono)
  also have "\<dots> = 2 powi ?k / 2 ^ 53" by (simp add: u)
  also have "\<dots> \<le> \<bar>x\<bar> / 2 ^ 53" using lo by (simp add: divide_right_mono)
  finally show ?thesis .
qed

lemma fl64_zero [simp]: "fl64 0 = 0"
  by (simp add: fl64_def)

text \<open>
  The rounding at work: \<^verbatim>\<open>int(1160 / 1000 * 25)\<close> is \<open>28\<close> and
  \<^verbatim>\<open>int(4100 / 1000 * 30)\<close> is \<open>122\<close>, one below the exact quotients; with the floats
  nearest to \<open>4.1\<close> and \<open>11.04\<close>, \<^verbatim>\<open>int(4.1 * 30)\<close> is \<open>122\<close> and
  \<^verbatim>\<open>int(11.04 * 25)\<close> is \<open>276\<close>, one above the exact product of the float; and
  \<^verbatim>\<open>int(1 / 49 * 49)\<close> is \<open>0\<close>.
\<close>

lemma float64_examples:
  "ms_to_frame 1160 25 = 28 \<and> ms_to_frame 4100 30 = 122 \<and>
   py_int (fl64 (fl64 (41 / 10) * 30)) = 122 \<and>
   py_int (fl64 (fl64 (1104 / 100) * 25)) = 276 \<and>
   py_int (fl64 (fl64 (1 / 49) * 49)) = 0"
  by code_simp

lemma normal_threshold: "(2::rat) powi (- 1022) \<le> 1 / 1024"
proof -
  have "(2::rat) powi (- 1022) \<le> 2 powi (- 10)"
    by (intro power_int_increasing) simp_all
  also have "(2::rat) powi (- 10) = 1 / 1024" by (simp add: power_int_minus_divide)
  finally show ?thesis .
qed

lemma float_product_close:
  assumes "1 \<le> ms" and "1 \<le> fps" and "ms * fps < 2 ^ 50"
  shows "\<bar>fl64 (fl64 (of_int ms / 1000) * of_int fps) - of_int (ms * fps) / 1000\<bar> < 1 / 1000"
proof -
  define P where "P = ms * fps"
  let ?x = "of_int ms / 1000 :: rat" and ?f = "of_int fps :: rat"
  let ?X = "of_int P / 1000 :: rat"
  let ?a = "fl64 ?x"
  let ?y = "?a * ?f"
  let ?v = "fl64 ?y"
  have x_lo: "1 / 1000 \<le> ?x" using assms(1) by simp
  have f_lo: "1 \<le> ?f" using assms(2) by simp
  have X: "?X = ?x * ?f" by (simp add: P_def)
  have "P < 2 ^ 50" using assms(3) by (simp add: P_def)
  then have "(of_int P :: rat) < of_int (2 ^ 50)" by (simp only: of_int_less_iff)
  then have X_hi: "?X < 2 ^ 50 / 1000" by simp
  have X_lo: "1 / 1000 \<le> ?X"
  proof -
    have "?x * 1 \<le> ?x * ?f" using x_lo f_lo by (intro mult_left_mono) simp_all
    then show ?thesis using x_lo unfolding X by linarith
  qed
  have "(2::rat) powi (- 1022) \<le> \<bar>?x\<bar>" using normal_threshold x_lo by linarith
  from fl64_error [OF this] x_lo have a: "\<bar>?a - ?x\<bar> \<le> ?x / 2 ^ 53" by simp
  then have a_lo: "?x - ?x / 2 ^ 53 \<le> ?a" and a_hi: "?a \<le> ?x + ?x / 2 ^ 53" by linarith+
  have y_lo: "?X - ?X / 2 ^ 53 \<le> ?y"
  proof -
    have "(?x - ?x / 2 ^ 53) * ?f \<le> ?a * ?f" using a_lo f_lo by (intro mult_right_mono) simp_all
    also have "(?x - ?x / 2 ^ 53) * ?f = ?x * ?f - ?x * ?f / 2 ^ 53" by (simp add: algebra_simps)
    finally show ?thesis by (simp only: X)
  qed
  have y_hi: "?y \<le> ?X + ?X / 2 ^ 53"
  proof -
    have "?a * ?f \<le> (?x + ?x / 2 ^ 53) * ?f" using a_hi f_lo by (intro mult_right_mono) simp_all
    also have "(?x + ?x / 2 ^ 53) * ?f = ?x * ?f + ?x * ?f / 2 ^ 53" by (simp add: algebra_simps)
    finally show ?thesis by (simp only: X)
  qed
  have e53: "(2::rat) ^ 53 = 9007199254740992" and e50: "(2::rat) ^ 50 = 1125899906842624"
    by simp_all
  have y_pos: "1 / 1024 \<le> ?y" using y_lo X_lo unfolding e53 by linarith
  then have "(2::rat) powi (- 1022) \<le> \<bar>?y\<bar>" using normal_threshold by linarith
  from fl64_error [OF this] y_pos have v: "\<bar>?v - ?y\<bar> \<le> ?y / 2 ^ 53" by simp
  have "\<bar>?v - ?X\<bar> < 1 / 1000" using v y_lo y_hi X_hi X_lo unfolding e53 e50 by linarith
  then show ?thesis by (simp only: P_def)
qed

subsection \<open>Slices and the score builder\<close>

lemma length_add_slice: "length (add_slice arr a b) = length arr"
  by (simp add: add_slice_def Let_def)

lemma nth_add_slice:
  "i < length arr \<Longrightarrow>
   add_slice arr a b ! i = arr ! i + (if covers (length arr) i (a, b) then 1 else 0)"
  by (simp add: add_slice_def Let_def covers_def)

lemma length_add_ranges:
  "length (foldl (\<lambda>frame_scores (start, end). add_slice frame_scores start end) arr rs) = length arr"
  by (induction rs arbitrary: arr) (auto simp: length_add_slice)

lemma nth_add_ranges:
  "i < length arr \<Longrightarrow>
   foldl (\<lambda>frame_scores (start, end). add_slice frame_scores start end) arr rs ! i
     = arr ! i + int (length (filter (covers (length arr) i) rs))"
proof (induction rs arbitrary: arr)
  case Nil
  then show ?case by simp
next
  case (Cons r rs)
  obtain a b where r: "r = (a, b)" by (cases r)
  have "i < length (add_slice arr a b)" using Cons.prems by (simp add: length_add_slice)
  from Cons.IH [OF this] show ?case
    using Cons.prems by (simp add: r length_add_slice nth_add_slice)
qed

lemma length_add_diffs: "length (add_diffs k ds sc) = length sc"
  by (induction ds arbitrary: k sc) auto

lemma nth_add_diffs:
  "i < length sc \<Longrightarrow>
   add_diffs k ds sc ! i = sc ! i + (if k \<le> i \<and> i < k + length ds then ds ! (i - k) else 0)"
proof (induction ds arbitrary: k sc)
  case Nil
  then show ?case by simp
next
  case (Cons d ds)
  let ?sc = "if k < length sc then sc[k := sc ! k + d] else sc"
  have len: "i < length ?sc" using Cons.prems by simp
  have step: "?sc ! i = sc ! i + (if i = k then d else 0)"
    using Cons.prems by (auto simp: nth_list_update)
  show ?case
    using Cons.IH [OF len, of "Suc k"] step
    by (auto simp: nth_Cons' Suc_diff_le)
qed

lemma covers_nonneg:
  "0 \<le> s \<Longrightarrow> 0 \<le> e \<Longrightarrow> i < n \<Longrightarrow> covers n i (s, e) = (s \<le> int i \<and> int i < e)"
  by (auto simp: covers_def slice_bound_def)

lemma length_combine_scores: "length (combine_scores n rs ds) = n"
  by (simp add: combine_scores_def length_add_diffs length_add_ranges)

lemma nth_combine_scores:
  "i < n \<Longrightarrow>
   combine_scores n rs ds ! i
     = (if i < length ds then ds ! i else 0) + int (length (filter (covers n i) rs))"
  by (simp add: combine_scores_def nth_add_diffs length_add_ranges nth_add_ranges)

lemma filter_covers_nonneg:
  "\<forall>(s, e) \<in> set rs. 0 \<le> s \<and> 0 \<le> e \<Longrightarrow> i < n \<Longrightarrow>
   filter (covers n i) rs = filter (\<lambda>(s, e). s \<le> int i \<and> int i < e) rs"
  by (rule filter_cong) (auto simp: covers_nonneg)

subsection \<open>\<^verbatim>\<open>np.argmax\<close> and the selection\<close>

lemma argmax_from_spec:
  "(argmax_from bi bv i xs = bi \<and> (\<forall>x \<in> set xs. x \<le> bv)) \<or>
   (i \<le> argmax_from bi bv i xs \<and> argmax_from bi bv i xs < i + length xs \<and>
    bv < xs ! (argmax_from bi bv i xs - i) \<and>
    (\<forall>j < length xs. xs ! j \<le> xs ! (argmax_from bi bv i xs - i)) \<and>
    (\<forall>j < argmax_from bi bv i xs - i. xs ! j < xs ! (argmax_from bi bv i xs - i)))"
proof (induction xs arbitrary: bi bv i)
  case Nil
  then show ?case by simp
next
  case (Cons x xs)
  show ?case
  proof (cases "bv < x")
    case True
    let ?k = "argmax_from i x (Suc i) xs"
    have eq: "argmax_from bi bv i (x # xs) = ?k" using True by simp
    from Cons.IH [of i x "Suc i"] show ?thesis
    proof
      assume a: "?k = i \<and> (\<forall>y \<in> set xs. y \<le> x)"
      then have "\<forall>j < length (x # xs). (x # xs) ! j \<le> x"
        by (auto simp: nth_Cons')
      then show ?thesis using a True by (simp add: eq)
    next
      assume a: "Suc i \<le> ?k \<and> ?k < Suc i + length xs \<and> x < xs ! (?k - Suc i) \<and>
        (\<forall>j < length xs. xs ! j \<le> xs ! (?k - Suc i)) \<and>
        (\<forall>j < ?k - Suc i. xs ! j < xs ! (?k - Suc i))"
      then have k: "?k - i = Suc (?k - Suc i)" by arith
      have "\<forall>j < length (x # xs). (x # xs) ! j \<le> xs ! (?k - Suc i)"
        using a by (auto simp: nth_Cons' less_Suc_eq_0_disj)
      moreover have "\<forall>j < Suc (?k - Suc i). (x # xs) ! j < xs ! (?k - Suc i)"
        using a by (auto simp: nth_Cons' less_Suc_eq_0_disj)
      ultimately show ?thesis using a True by (simp add: eq k)
    qed
  next
    case False
    let ?k = "argmax_from bi bv (Suc i) xs"
    have eq: "argmax_from bi bv i (x # xs) = ?k" using False by simp
    from Cons.IH [of bi bv "Suc i"] show ?thesis
    proof
      assume a: "?k = bi \<and> (\<forall>y \<in> set xs. y \<le> bv)"
      then show ?thesis using False by (simp add: eq)
    next
      assume a: "Suc i \<le> ?k \<and> ?k < Suc i + length xs \<and> bv < xs ! (?k - Suc i) \<and>
        (\<forall>j < length xs. xs ! j \<le> xs ! (?k - Suc i)) \<and>
        (\<forall>j < ?k - Suc i. xs ! j < xs ! (?k - Suc i))"
      then have k: "?k - i = Suc (?k - Suc i)" by arith
      have "\<forall>j < length (x # xs). (x # xs) ! j \<le> xs ! (?k - Suc i)"
        using a False by (auto simp: nth_Cons' less_Suc_eq_0_disj)
      moreover have "\<forall>j < Suc (?k - Suc i). (x # xs) ! j < xs ! (?k - Suc i)"
        using a False by (auto simp: nth_Cons' less_Suc_eq_0_disj)
      ultimately show ?thesis using a False by (simp add: k)
    qed
  qed
qed

lemma np_argmax_first_max:
  assumes "xs \<noteq> []"
  shows "\<exists>k. np_argmax xs = Inr k \<and> k < length xs \<and>
           (\<forall>j < length xs. xs ! j \<le> xs ! k) \<and> (\<forall>j < k. xs ! j < xs ! k)"
proof -
  obtain x ys where xs: "xs = x # ys" using assms by (cases xs) auto
  let ?k = "argmax_from 0 x 1 ys"
  from argmax_from_spec [of 0 x 1 ys] show ?thesis
  proof
    assume "?k = 0 \<and> (\<forall>y \<in> set ys. y \<le> x)"
    then show ?thesis by (auto simp: xs nth_Cons')
  next
    assume a: "1 \<le> ?k \<and> ?k < 1 + length ys \<and> x < ys ! (?k - 1) \<and>
      (\<forall>j < length ys. ys ! j \<le> ys ! (?k - 1)) \<and> (\<forall>j < ?k - 1. ys ! j < ys ! (?k - 1))"
    then have k: "(x # ys) ! ?k = ys ! (?k - 1)" by (simp add: nth_Cons')
    have "\<forall>j < length (x # ys). (x # ys) ! j \<le> ys ! (?k - 1)"
      using a by (auto simp: nth_Cons' less_Suc_eq_0_disj)
    moreover have "\<forall>j < ?k. (x # ys) ! j < ys ! (?k - 1)"
      using a by (auto simp: nth_Cons')
    ultimately show ?thesis using a by (simp add: xs k)
  qed
qed

lemma np_argmax_error: "np_argmax xs = Inl e \<Longrightarrow> e = ArgmaxEmpty \<and> xs = []"
  by (cases xs) auto

lemma window_sums_empty:
  "int (length frame_scores) \<le> highlight_frames \<Longrightarrow> window_sums frame_scores highlight_frames = []"
  by (simp add: window_sums_def)

lemma select_start_too_long:
  "int (length frame_scores) \<le> highlight_frames \<Longrightarrow>
   select_start frame_scores highlight_frames = Inl ArgmaxEmpty"
  by (simp add: select_start_def window_sums_empty)

lemma select_start_error:
  "select_start frame_scores highlight_frames = Inl e \<Longrightarrow> e = ArgmaxEmpty"
  unfolding select_start_def by (drule np_argmax_error) simp


lemma select_start_first_max:
  assumes "highlight_frames < int (length frame_scores)"
  shows "\<exists>k. select_start frame_scores highlight_frames = Inr k \<and>
           int k < int (length frame_scores) - highlight_frames \<and>
           (\<forall>j. int j < int (length frame_scores) - highlight_frames \<longrightarrow>
                window_sum frame_scores (int j) highlight_frames
                  \<le> window_sum frame_scores (int k) highlight_frames) \<and>
           (\<forall>j < k. window_sum frame_scores (int j) highlight_frames
                  < window_sum frame_scores (int k) highlight_frames)"
proof -
  let ?ws = "window_sums frame_scores highlight_frames"
  have len: "int (length ?ws) = int (length frame_scores) - highlight_frames"
    using assms by (simp add: window_sums_def)
  then have "?ws \<noteq> []" using assms by auto
  from np_argmax_first_max [OF this] obtain k where
    k: "np_argmax ?ws = Inr k" "k < length ?ws"
       "\<forall>j < length ?ws. ?ws ! j \<le> ?ws ! k" "\<forall>j < k. ?ws ! j < ?ws ! k"
    by blast
  have nth: "?ws ! j = window_sum frame_scores (int j) highlight_frames" if "j < length ?ws" for j
    using that by (simp add: window_sums_def)
  have "\<forall>j. int j < int (length frame_scores) - highlight_frames \<longrightarrow>
          window_sum frame_scores (int j) highlight_frames
            \<le> window_sum frame_scores (int k) highlight_frames"
    using k(2,3) len nth by (metis of_nat_less_iff)
  moreover have "\<forall>j < k. window_sum frame_scores (int j) highlight_frames
            < window_sum frame_scores (int k) highlight_frames"
    using k(2,4) nth by (metis less_trans)
  ultimately show ?thesis using k(1,2) len by (auto simp: select_start_def)
qed

section \<open>Properties of the extraction operation\<close>

lemma py_int_of_int [simp]: "py_int (of_int k) = k"
  by (simp add: py_int_def)

lemma py_int_zero [simp]: "py_int 0 = 0"
  by (simp add: py_int_def)

lemma py_int_of_nat [simp]: "py_int (of_nat n) = int n"
  using py_int_of_int [of "int n"] by (simp del: py_int_of_int)

lemma py_slice_to_zero: "py_slice xs a 0 = []"
  by (simp add: py_slice_def slice_bound_def Let_def)

lemma py_slice_Nil: "py_slice [] a b = []"
  by (simp add: py_slice_def)

lemma read_frames_few: "length fs < 2 \<Longrightarrow> read_frames None fs = []"
proof (cases fs)
  case Nil
  then show ?thesis by simp
next
  case (Cons f rest)
  assume "length fs < 2"
  with Cons have "rest = []" by simp
  with Cons show ?thesis by simp
qed

lemma frame_diffs_few: "length (gray_frames video) < 2 \<Longrightarrow> frame_diffs_of video = []"
  by (simp add: frame_diffs_of_def read_frames_few py_slice_Nil)

lemma frame_diffs_total_frames:
  "frame_diffs_of video \<noteq> [] \<Longrightarrow> total_frames_of video \<noteq> 0"
  by (auto simp: frame_diffs_of_def py_slice_to_zero)

lemma total_frames_fps: "total_frames_of video \<noteq> 0 \<Longrightarrow> fps_of video \<noteq> 0"
  by (auto simp: total_frames_of_def)

lemma length_frame_scores: "length (frame_scores_of video) = nat (total_frames_of video)"
  by (simp add: frame_scores_of_def length_combine_scores)

lemma adjust_to_video_effects:
  "temp_audio_exists (snd (adjust_to_video video d w)) = temp_audio_exists w \<and>
   clip_written (snd (adjust_to_video video d w)) = clip_written w"
  by (simp add: adjust_to_video_def)

lemma select_and_write_clamped:
  assumes "int (length frame_scores) = py_int (fl64 (d * of_int fps))"
  shows "fst (select_and_write video fps d frame_scores w) = Inl ArgmaxEmpty \<and>
         temp_audio_exists (snd (select_and_write video fps d frame_scores w))
           = temp_audio_exists w \<and>
         clip_written (snd (select_and_write video fps d frame_scores w)) = clip_written w"
proof -
  have "\<not> int (length frame_scores) < py_int (fl64 (d * of_int fps))"
    using assms by simp
  then show ?thesis
    using assms
    by (simp add: select_and_write_def adjust_to_scores_def select_start_too_long)
qed

lemma select_and_write_errors:
  "fst (select_and_write video fps d frame_scores w) = Inl e \<Longrightarrow>
   e = ZeroDivisionError \<or> e = ArgmaxEmpty \<or> e = ClipWriteFailed"
  by (auto simp: select_and_write_def adjust_to_scores_def Let_def
        split: sum.splits if_splits prod.splits dest: select_start_error)

lemma select_and_write_returns:
  "fst (select_and_write video fps d frame_scores w) = Inr p \<Longrightarrow> p = output_path video"
  by (auto simp: select_and_write_def adjust_to_scores_def Let_def
        split: sum.splits if_splits prod.splits)

lemma extract_highlight_selection:
  assumes "is_file video" "clip_opens video" "has_audio video" "nonsilent_ranges video \<noteq> []"
    "cap_opened video" "frame_diffs_of video \<noteq> []" "0 \<le> total_frames_of video"
  shows "extract_highlight video d =
           select_and_write video (fps_of video) (fst (adjust_to_video video d no_effects))
             (frame_scores_of video)
             ((snd (adjust_to_video video d no_effects))\<lparr>temp_audio_exists := True\<rparr>)"
  using assms by (simp add: extract_highlight_def split_beta Let_def)

lemma extract_highlight_early:
  assumes "\<not> (is_file video \<and> clip_opens video \<and> has_audio video \<and> nonsilent_ranges video \<noteq> []
    \<and> cap_opened video \<and> frame_diffs_of video \<noteq> [] \<and> 0 \<le> total_frames_of video)"
  shows "fst (extract_highlight video d) =
           Inl (if \<not> is_file video then FileNotFoundError
                else if \<not> clip_opens video then CouldNotProcess
                else if \<not> has_audio video then NoAudioTrack
                else if nonsilent_ranges video = [] then NoAudioActivity
                else if \<not> cap_opened video then UnableToOpen
                else if frame_diffs_of video = [] then NoSceneChanges
                else NegativeDimensions) \<and>
         clip_written (snd (extract_highlight video d)) = None"
  using assms
  by (auto simp: extract_highlight_def split_beta Let_def no_effects_def adjust_to_video_def)

lemma clamped_run_fails:
  assumes "duration video < d \<or>
           py_int (fl64 (d * of_int (fps_of video))) = total_frames_of video"
  shows "\<exists>e. fst (extract_highlight video d) = Inl e"
proof (cases "is_file video \<and> clip_opens video \<and> has_audio video \<and> nonsilent_ranges video \<noteq> []
    \<and> cap_opened video \<and> frame_diffs_of video \<noteq> [] \<and> 0 \<le> total_frames_of video")
  case False
  from extract_highlight_early [OF this] show ?thesis by blast
next
  case True
  have "int (length (frame_scores_of video))
          = py_int (fl64 (fst (adjust_to_video video d no_effects) * of_int (fps_of video)))"
    using True assms
    by (auto simp: length_frame_scores adjust_to_video_def total_frames_of_def)
  from select_and_write_clamped [OF this] show ?thesis
    using True by (simp add: extract_highlight_selection)
qed

subsection \<open>Warnings only accumulate\<close>

lemma select_and_write_warnings:
  "\<exists>ws. warnings (snd (select_and_write video fps d frame_scores w)) = warnings w @ ws"
  by (auto simp: select_and_write_def adjust_to_scores_def Let_def
        split: sum.splits if_splits prod.splits)

lemma extract_highlight_warnings:
  assumes "is_file video" "clip_opens video"
  shows "\<exists>ws. warnings (snd (extract_highlight video d))
               = warnings (snd (adjust_to_video video d no_effects)) @ ws"
proof (cases "is_file video \<and> clip_opens video \<and> has_audio video \<and> nonsilent_ranges video \<noteq> []
    \<and> cap_opened video \<and> frame_diffs_of video \<noteq> [] \<and> 0 \<le> total_frames_of video")
  case True
  then show ?thesis
    using select_and_write_warnings
      [of video "fps_of video" "fst (adjust_to_video video d no_effects)" "frame_scores_of video"
          "(snd (adjust_to_video video d no_effects))\<lparr>temp_audio_exists := True\<rparr>"]
    by (simp add: extract_highlight_selection)
next
  case False
  then show ?thesis using assms
    by (auto simp: extract_highlight_def split_beta Let_def)
qed

section \<open>The claims\<close>

subsection \<open>The best-window selector\<close>

text \<open>
  Claim C1: for a window length \<open>L\<close> with \<open>1 \<le> L \<le> N\<close> the selector evaluates the sum of
  \<^verbatim>\<open>score[i : i+L]\<close> for every start \<open>i\<close> in \<open>[0, N-L]\<close> inclusive and returns the lowest
  start of maximal sum. The code scans \<^verbatim>\<open>range(len(frame_scores) - highlight_frames)\<close>,
  the starts \<open>0, ..., N-L-1\<close>, so the last window is never evaluated. On the scores
  \<open>[0, 0, 1]\<close> with \<open>L = 1\<close> the sums computed are \<open>[0, 0]\<close>, the start returned is \<open>0\<close>, and
  the window at start \<open>2\<close>, of strictly greater sum, is missed; \<open>late_sound_video\<close> with a
  requested duration of one second is a call that builds these scores and writes the clip
  of the first second. (What the code does select is \<open>select_start_first_max\<close>: the first
  maximum among the starts below \<open>N-L\<close>.)
\<close>

theorem last_window_not_evaluated:
  "window_sums [0, 0, 1] 1 = [0, 0] \<and> select_start [0, 0, 1] 1 = Inr 0 \<and>
   window_sum [0, 0, 1] 0 1 < window_sum [0, 0, 1] 2 1 \<and>
   frame_scores_of late_sound_video = [0, 0, 1] \<and>
   clip_written (snd (extract_highlight late_sound_video 1)) = Some (0, 1)"
  by code_simp

text \<open>
  Claim C2: when the window length equals the number of scores the only valid window starts
  at \<open>0\<close>, start \<open>0\<close> is returned and no error is raised. In the code the range of starts is
  then empty and \<^verbatim>\<open>np.argmax\<close> raises on the empty list of sums: for every score array, the
  all-zero ones included, the selection with \<open>L = N\<close> ends in that error, and so does the
  call on \<open>late_sound_video\<close> (three frames) with a request of three seconds.
\<close>

theorem full_length_window_raises:
  "select_start frame_scores (int (length frame_scores)) = Inl ArgmaxEmpty \<and>
   select_start [0, 0, 0] 3 = Inl ArgmaxEmpty \<and>
   fst (extract_highlight late_sound_video 3) = Inl ArgmaxEmpty"
proof -
  have "fst (extract_highlight late_sound_video 3) = Inl ArgmaxEmpty" by code_simp
  then show ?thesis by (simp add: select_start_too_long)
qed

text \<open>
  Claim C3: the window length is the minimum of the requested frames and the total frames,
  and a request that exceeds the total is clamped, a warning is given, and the pipeline
  goes on rather than failing. The code clamps and warns, and then fails: with
  \<open>late_sound_video\<close> (three frames) and a request of five seconds (five frames) the two
  warnings of lines 25 and 27 are shown, the length is clamped to three frames, and
  \<^verbatim>\<open>np.argmax\<close> raises on the empty list of window sums. (\<open>clamped_run_fails\<close>: every call
  whose request exceeds the video's duration, or whose requested frames equal the total
  frames, ends in an error.)
\<close>

theorem clamped_request_raises:
  "total_frames_of late_sound_video = 3 \<and>
   py_int (5 * of_int (fps_of late_sound_video)) = 5 \<and>
   py_int (fl64 (5 * of_int (fps_of late_sound_video))) = 5 \<and>
   extract_highlight late_sound_video 5 =
     (Inl ArgmaxEmpty,
      \<lparr>warnings = [Exceeds 5 3, Adjusted 3], temp_audio_exists = True, clip_written = None\<rparr>)"
  by code_simp

subsection \<open>The two signals\<close>

text \<open>
  Claim C4, as stated: with zero non-silent intervals and a non-empty difference signal the
  pipeline does not fail, and the no-signal error is raised only when both signals are
  empty. It fails on \<open>silent_video\<close>: no interval, the difference signal \<open>[3, 11]\<close>, and the
  call raises the error of line 40.
\<close>

theorem silent_video_fails:
  "nonsilent_ranges silent_video = [] \<and> frame_diffs_of silent_video = [3, 11] \<and>
   fst (extract_highlight silent_video 1) = Inl NoAudioActivity"
  by code_simp

text \<open>
  Claim C4, amended: for a source that opens and has an audio stream, the call raises
  "No significant audio activity" exactly when the detector returns zero non-silent
  intervals, whatever the difference signal holds, and raises "No significant scene changes"
  exactly when there are intervals and the difference signal (cut to the total frame count)
  is empty. So one of the two no-signal errors is raised as soon as either signal is empty.
\<close>

theorem no_signal_errors:
  assumes "is_file video" and "clip_opens video" and "has_audio video" and "cap_opened video"
  shows "(fst (extract_highlight video d) = Inl NoAudioActivity \<longleftrightarrow> nonsilent_ranges video = []) \<and>
         (fst (extract_highlight video d) = Inl NoSceneChanges \<longleftrightarrow>
            nonsilent_ranges video \<noteq> [] \<and> frame_diffs_of video = [])"
proof (cases "nonsilent_ranges video \<noteq> [] \<and> frame_diffs_of video \<noteq> []
    \<and> 0 \<le> total_frames_of video")
  case True
  have "fst (extract_highlight video d) \<noteq> Inl NoAudioActivity"
    "fst (extract_highlight video d) \<noteq> Inl NoSceneChanges"
    using True assms select_and_write_errors
      [of video "fps_of video" "fst (adjust_to_video video d no_effects)" "frame_scores_of video"
          "(snd (adjust_to_video video d no_effects))\<lparr>temp_audio_exists := True\<rparr>"]
    by (auto simp: extract_highlight_selection)
  then show ?thesis using True by simp
next
  case False
  then have "\<not> (is_file video \<and> clip_opens video \<and> has_audio video \<and> nonsilent_ranges video \<noteq> []
    \<and> cap_opened video \<and> frame_diffs_of video \<noteq> [] \<and> 0 \<le> total_frames_of video)"
    by blast
  from extract_highlight_early [OF this, of d] show ?thesis
    using assms by (auto split: if_splits)
qed

text \<open>Claim C4, amended, at \<open>silent_video\<close>: its hypotheses hold there.\<close>

theorem no_signal_errors_witness:
  "is_file silent_video \<and> clip_opens silent_video \<and> has_audio silent_video \<and>
   cap_opened silent_video \<and> nonsilent_ranges silent_video = [] \<and>
   fst (extract_highlight silent_video 1) = Inl NoAudioActivity \<and>
   fst (extract_highlight silent_video 1) \<noteq> Inl NoSceneChanges"
proof -
  have h: "is_file silent_video" "clip_opens silent_video" "has_audio silent_video"
    "cap_opened silent_video"
    by (simp_all add: silent_video_def)
  have e: "nonsilent_ranges silent_video = []" by (simp add: silent_video_def)
  from no_signal_errors [OF h, of 1] e h show ?thesis by simp
qed

subsection \<open>The composite score\<close>

text \<open>
  Claim C5, as stated: \<open>score[i]\<close> is the difference magnitude for frame \<open>i\<close> (none for
  frame \<open>0\<close>) plus one for each range covering \<open>i\<close>. The code adds \<^verbatim>\<open>frame_diffs[i]\<close>, the
  difference between frames \<open>i\<close> and \<open>i + 1\<close>, to \<open>score[i]\<close>: for two frames that differ by
  \<open>5\<close> and no range, the code's scores are \<open>[5, 0]\<close> and the specification's \<open>[0, 5]\<close>.
\<close>

theorem magnitudes_not_shifted:
  "combine_scores 2 [] [5] = [5, 0] \<and> spec_combine_scores 2 [] [5] = [0, 5]"
  by code_simp

text \<open>
  Claim C5, amended: for ranges with non-negative bounds (what the conversion of the
  detector's intervals gives), the score array has length exactly \<open>N\<close>, and \<open>score[i]\<close> is
  \<^verbatim>\<open>frame_diffs[i]\<close> (the difference between frames \<open>i\<close> and \<open>i + 1\<close>; nothing where
  \<open>i\<close> is beyond the differences) plus one for each range \<open>[start, end)\<close> that covers \<open>i\<close>,
  overlapping ranges each adding one; what a range or the differences hold beyond \<open>N\<close> is
  ignored and never extends the array.
\<close>

theorem combine_scores_shape:
  assumes "\<forall>(s, e) \<in> set rs. 0 \<le> s \<and> 0 \<le> e"
  shows "length (combine_scores n rs ds) = n \<and>
         (\<forall>i < n. combine_scores n rs ds ! i
            = (if i < length ds then ds ! i else 0)
              + int (length (filter (\<lambda>(s, e). s \<le> int i \<and> int i < e) rs)))"
  using assms by (simp add: length_combine_scores nth_combine_scores filter_covers_nonneg)

text \<open>
  Claim C5, amended, at four frames, three differences and the overlapping ranges
  \<open>[1, 3)\<close> and \<open>[2, 9)\<close>, the second reaching beyond the array.
\<close>

theorem combine_scores_shape_witness:
  "length (combine_scores 4 [(1, 3), (2, 9)] [10, 20, 30]) = 4 \<and>
   combine_scores 4 [(1, 3), (2, 9)] [10, 20, 30] ! 2 = 30 + 2 \<and>
   combine_scores 4 [(1, 3), (2, 9)] [10, 20, 30] ! 3 = 0 + 1"
proof -
  have h: "\<forall>(s, e) \<in> set [(1, 3), (2, 9)]. (0::int) \<le> s \<and> (0::int) \<le> e" by simp
  have "(2::nat) < 4" "(3::nat) < 4" by simp_all
  with combine_scores_shape [OF h, of 4 "[10, 20, 30]"]
  have "length (combine_scores 4 [(1, 3), (2, 9)] [10, 20, 30]) = 4"
    and "combine_scores 4 [(1, 3), (2, 9)] [10, 20, 30] ! 2
      = (if 2 < length [10, 20, 30 :: int] then [10, 20, 30] ! 2 else 0)
        + int (length (filter (\<lambda>(s, e). s \<le> int 2 \<and> int 2 < e) [(1, 3), (2, 9)]))"
    and "combine_scores 4 [(1, 3), (2, 9)] [10, 20, 30] ! 3
      = (if 3 < length [10, 20, 30 :: int] then [10, 20, 30] ! 3 else 0)
        + int (length (filter (\<lambda>(s, e). s \<le> int 3 \<and> int 3 < e) [(1, 3), (2, 9)]))"
    by blast+
  then show ?thesis by simp
qed

subsection \<open>The conversion of intervals\<close>

text \<open>
  Claim C6, as stated: each endpoint is \<^verbatim>\<open>round(ms / 1000 * fps)\<close>, rounded to the nearest
  frame. The code applies \<^verbatim>\<open>int\<close>: 750 ms at 5 frames per second is frame \<open>3.75\<close>, which
  the code takes to frame \<open>3\<close> and rounding takes to frame \<open>4\<close>.
\<close>

theorem conversion_does_not_round:
  "ms_to_frame 750 5 = 3 \<and> spec_ms_to_frame 750 5 = 4"
  by code_simp

text \<open>
  Claim C6, amended: each endpoint is \<^verbatim>\<open>int(ms / 1000 * fps)\<close>, the float product
  truncated, never rounded up to the nearest frame. For the non-negative values the detector
  and the frame rate give (with \<open>ms * fps\<close> below \<open>2 ^ 50\<close>) the frame is at most the exact
  quotient \<open>ms * fps / 1000\<close> rounded down, and equal to it whenever the exact quotient is not
  a whole number; when it is a whole number the float product may fall just below it and the
  frame is then one less (1160 ms at 25 frames per second is frame \<open>28\<close>, not \<open>29\<close>).
\<close>

theorem ms_to_frame_truncates:
  assumes "0 \<le> ms" and "0 \<le> fps" and "ms * fps < 2 ^ 50"
  shows "ms * fps div 1000 - 1 \<le> ms_to_frame ms fps \<and>
         ms_to_frame ms fps \<le> ms * fps div 1000 \<and>
         (\<not> 1000 dvd ms * fps \<longrightarrow> ms_to_frame ms fps = ms * fps div 1000)"
proof (cases "ms = 0 \<or> fps = 0")
  case True
  then have "ms_to_frame ms fps = 0" by (auto simp: ms_to_frame_def py_int_def)
  then show ?thesis using True by auto
next
  case False
  with assms have pos: "1 \<le> ms" "1 \<le> fps" by simp_all
  define P where "P = ms * fps"
  define q where "q = P div 1000"
  define j where "j = P mod 1000"
  let ?v = "fl64 (fl64 (of_int ms / 1000) * of_int fps)"
  have close: "\<bar>?v - of_int P / 1000\<bar> < 1 / 1000"
    using float_product_close [OF pos assms(3)] by (simp only: P_def)
  have "P = 1000 * q + j" by (simp add: q_def j_def)
  then have "(of_int P :: rat) = of_int (1000 * q + j)" by (simp only:)
  then have P: "(of_int P :: rat) / 1000 = of_int q + of_int j / 1000" by simp
  have j: "0 \<le> j" "j \<le> 999" by (simp_all add: j_def)
  then have "(of_int 0 :: rat) \<le> of_int j" "(of_int j :: rat) \<le> of_int 999"
    by (simp_all only: of_int_le_iff)
  then have jr: "(0::rat) \<le> of_int j" "(of_int j :: rat) \<le> 999" by simp_all
  have "1 * 1 \<le> ms * fps" using pos by (intro mult_mono) simp_all
  then have "1 \<le> P" by (simp add: P_def)
  then have "(of_int 1 :: rat) \<le> of_int P" by (simp only: of_int_le_iff)
  then have P1: "(1::rat) \<le> of_int P" by simp
  have c1: "?v < of_int P / 1000 + 1 / 1000" and c2: "of_int P / 1000 - 1 / 1000 < ?v"
    using close by linarith+
  have v_pos: "0 \<le> ?v" using c2 P1 by linarith
  have r: "ms_to_frame ms fps = \<lfloor>?v\<rfloor>" using v_pos by (simp add: ms_to_frame_def py_int_def)
  have lo: "q - 1 \<le> \<lfloor>?v\<rfloor>"
  proof -
    have "of_int (q - 1) \<le> ?v" using c2 P jr by simp
    then show ?thesis by (simp only: le_floor_iff)
  qed
  have hi: "\<lfloor>?v\<rfloor> \<le> q"
  proof -
    have "?v < of_int (q + 1)" using c1 P jr by simp
    then have "\<lfloor>?v\<rfloor> < q + 1" by (simp only: floor_less_iff)
    then show ?thesis by simp
  qed
  have exact: "\<lfloor>?v\<rfloor> = q" if "\<not> 1000 dvd P"
  proof -
    from that have "j \<noteq> 0" by (simp add: j_def dvd_eq_mod_eq_0)
    with j have "1 \<le> j" by simp
    then have "(of_int 1 :: rat) \<le> of_int j" by (simp only: of_int_le_iff)
    then have "of_int q \<le> ?v" using c2 P by simp
    then have "q \<le> \<lfloor>?v\<rfloor>" by (simp only: le_floor_iff)
    with hi show ?thesis by simp
  qed
  show ?thesis using lo hi exact by (simp add: r P_def q_def)
qed

text \<open>
  Claim C6, amended, at 1160 ms and 25 frames per second (exact quotient \<open>29\<close>, frame \<open>28\<close>)
  and at 750 ms and 5 frames per second (exact quotient \<open>3.75\<close>, frame \<open>3\<close>).
\<close>

theorem ms_to_frame_truncates_witness:
  "ms_to_frame 1160 25 = 28 \<and> 1160 * 25 div 1000 = (29::int) \<and>
   ms_to_frame 750 5 = 3 \<and> 750 * 5 div 1000 = (3::int)"
proof -
  have h1: "(0::int) \<le> 1160" "(0::int) \<le> 25" "(1160::int) * 25 < 2 ^ 50" by simp_all
  have h2: "(0::int) \<le> 750" "(0::int) \<le> 5" "(750::int) * 5 < 2 ^ 50" by simp_all
  have n: "\<not> (1000::int) dvd 750 * 5" by simp
  have v: "ms_to_frame 1160 25 = 28" by code_simp
  from ms_to_frame_truncates [OF h2] n have "ms_to_frame 750 5 = 750 * 5 div 1000" by blast
  moreover from ms_to_frame_truncates [OF h1]
  have "1160 * 25 div 1000 - 1 \<le> ms_to_frame 1160 25" by blast
  ultimately show ?thesis using v by simp
qed

subsection \<open>What the call returns\<close>

text \<open>
  Claim C7, as stated: on success the call returns the path of the clip, the duration used
  and, when the duration was adjusted, a warning message. The value returned is the path
  alone: two successful calls on \<open>late_sound_video\<close> that use different durations (one and
  two seconds) return the same value.
\<close>

theorem result_omits_duration:
  "fst (extract_highlight late_sound_video 1) = Inr ''/tmp/highlight.mp4'' \<and>
   fst (extract_highlight late_sound_video 2) = Inr ''/tmp/highlight.mp4'' \<and>
   duration_used late_sound_video 1 = 1 \<and> duration_used late_sound_video 2 = 2"
  by code_simp

text \<open>
  Claim C7, amended: on success the call returns the path of the clip file and nothing else;
  the duration used is not part of the value returned, and the warnings are not returned
  either: when the requested duration exceeds the video's, the two warnings are shown through
  \<^verbatim>\<open>st.warning\<close> at the moment of the adjustment.
\<close>

theorem returns_path_only:
  "(fst (extract_highlight video d) = Inr p \<longrightarrow> p = output_path video) \<and>
   (is_file video \<and> clip_opens video \<and> duration video < d \<longrightarrow>
      take 2 (warnings (snd (extract_highlight video d)))
        = [Exceeds d (duration video), Adjusted (duration video)])"
proof
  show "fst (extract_highlight video d) = Inr p \<longrightarrow> p = output_path video"
  proof
    assume r: "fst (extract_highlight video d) = Inr p"
    show "p = output_path video"
    proof (cases "is_file video \<and> clip_opens video \<and> has_audio video
        \<and> nonsilent_ranges video \<noteq> [] \<and> cap_opened video \<and> frame_diffs_of video \<noteq> []
        \<and> 0 \<le> total_frames_of video")
      case True
      then show ?thesis
        using r select_and_write_returns by (simp add: extract_highlight_selection)
    next
      case False
      from extract_highlight_early [OF this, of d] r show ?thesis by simp
    qed
  qed
next
  show "is_file video \<and> clip_opens video \<and> duration video < d \<longrightarrow>
      take 2 (warnings (snd (extract_highlight video d)))
        = [Exceeds d (duration video), Adjusted (duration video)]"
  proof
    assume a: "is_file video \<and> clip_opens video \<and> duration video < d"
    then obtain ws where "warnings (snd (extract_highlight video d))
               = warnings (snd (adjust_to_video video d no_effects)) @ ws"
      using extract_highlight_warnings by blast
    then show "take 2 (warnings (snd (extract_highlight video d)))
        = [Exceeds d (duration video), Adjusted (duration video)]"
      using a by (simp add: adjust_to_video_def no_effects_def)
  qed
qed

text \<open>
  Claim C7, amended, at \<open>late_sound_video\<close>: a successful call (one second requested) and a
  call that is adjusted (five seconds requested of three).
\<close>

theorem returns_path_only_witness:
  "fst (extract_highlight late_sound_video 1) = Inr ''/tmp/highlight.mp4'' \<and>
   ''/tmp/highlight.mp4'' = output_path late_sound_video \<and>
   is_file late_sound_video \<and> clip_opens late_sound_video \<and> duration late_sound_video < 5 \<and>
   take 2 (warnings (snd (extract_highlight late_sound_video 5))) = [Exceeds 5 3, Adjusted 3]"
proof -
  have r: "fst (extract_highlight late_sound_video 1) = Inr ''/tmp/highlight.mp4''"
    by code_simp
  have h: "is_file late_sound_video \<and> clip_opens late_sound_video \<and> duration late_sound_video < 5"
    by (simp add: late_sound_video_def)
  have d: "duration late_sound_video = 3" by (simp add: late_sound_video_def)
  from returns_path_only [of late_sound_video 1 "''/tmp/highlight.mp4''"] r
  have p: "''/tmp/highlight.mp4'' = output_path late_sound_video" by blast
  from returns_path_only [of late_sound_video 5] h
  have "take 2 (warnings (snd (extract_highlight late_sound_video 5)))
      = [Exceeds 5 (duration late_sound_video), Adjusted (duration late_sound_video)]" by blast
  then show ?thesis using r h p by (simp add: d)
qed

subsection \<open>Failures\<close>




text \<open>
  Claim C9: on every exit path after the temporary audio file is created, the file is
  removed before the call returns or raises. The three \<^verbatim>\<open>raise\<close> statements and the
  \<^verbatim>\<open>finally\<close> clause remove it; two exits do not. A file without an audio stream makes
  line 32 raise with the temporary file just created, and the \<^verbatim>\<open>np.argmax\<close> of line 89,
  outside the \<^verbatim>\<open>try\<close>, raises on a request as long as the video: in both the file is left.
\<close>

theorem cleanup_missed:
  "extract_highlight mute_video 1 =
     (Inl NoAudioTrack, \<lparr>warnings = [], temp_audio_exists = True, clip_written = None\<rparr>) \<and>
   extract_highlight late_sound_video 4 =
     (Inl ArgmaxEmpty,
      \<lparr>warnings = [Exceeds 4 3, Adjusted 3], temp_audio_exists = True, clip_written = None\<rparr>)"
  by code_simp

text \<open>
  Claim C10: if fewer than two frames are decoded, the difference signal is empty and the
  call raises a fatal error and writes no clip, even when non-silent intervals were
  detected: then the error is "No significant scene changes" (line 71).
\<close>

theorem single_frame_fatal:
  assumes "length (gray_frames video) < 2"
  shows "(\<exists>e. fst (extract_highlight video d) = Inl e \<and> raised_before_scoring e) \<and>
         clip_written (snd (extract_highlight video d)) = None \<and>
         (is_file video \<and> clip_opens video \<and> has_audio video \<and> nonsilent_ranges video \<noteq> []
            \<and> cap_opened video \<longrightarrow> fst (extract_highlight video d) = Inl NoSceneChanges)"
proof -
  have diffs: "frame_diffs_of video = []" using assms by (rule frame_diffs_few)
  then have "\<not> (is_file video \<and> clip_opens video \<and> has_audio video
      \<and> nonsilent_ranges video \<noteq> [] \<and> cap_opened video \<and> frame_diffs_of video \<noteq> []
      \<and> 0 \<le> total_frames_of video)"
    by simp
  from extract_highlight_early [OF this, of d] diffs show ?thesis
    by (auto simp: raised_before_scoring_def)
qed

text \<open>Claim C10 at \<open>one_frame_video\<close>: one frame decoded, one non-silent interval.\<close>

theorem single_frame_fatal_witness:
  "length (gray_frames one_frame_video) < 2 \<and>
   is_file one_frame_video \<and> clip_opens one_frame_video \<and> has_audio one_frame_video \<and>
   nonsilent_ranges one_frame_video \<noteq> [] \<and> cap_opened one_frame_video \<and>
   fst (extract_highlight one_frame_video 1) = Inl NoSceneChanges \<and>
   clip_written (snd (extract_highlight one_frame_video 1)) = None"
proof -
  have h: "length (gray_frames one_frame_video) < 2" by (simp add: one_frame_video_def)
  have f: "is_file one_frame_video \<and> clip_opens one_frame_video \<and> has_audio one_frame_video \<and>
    nonsilent_ranges one_frame_video \<noteq> [] \<and> cap_opened one_frame_video"
    by (simp add: one_frame_video_def late_sound_video_def)
  from single_frame_fatal [OF h, of 1] f h show ?thesis by blast
qed

end
